theory Spec2Isabelle
  imports Main "HOL-Library.Char_ord" "HOL-Library.AList"
begin

section \<open>Docker bridge proxy: path translation, payload rewriting, forward registry\<close>

text \<open>
  A shallow embedding of \<^verbatim>\<open>docker-proxy/main.go\<close>. Go strings are byte sequences and
  are modelled as \<^typ>\<open>string\<close> (a list of 8-bit characters). The two compiled regular
  expressions become string scanners that return the capture groups; the JSON tree that
  \<^verbatim>\<open>json.Unmarshal\<close> produces becomes a datatype; the goroutines started by
  \<^verbatim>\<open>go startForwarder(...)\<close> become an interleaving of atomic steps over the shared
  registry.
\<close>

subsection \<open>Library string functions used by the program\<close>

abbreviation backslash :: char where "backslash \<equiv> CHR 0x5C"
abbreviation linefeed :: char where "linefeed \<equiv> CHR 0x0A"

text \<open>
  \<^verbatim>\<open>strings.ToUpper\<close> on ASCII input subtracts \<^verbatim>\<open>'a' - 'A'\<close> from every byte in
  \<^verbatim>\<open>'a'..'z'\<close>. Runes outside ASCII (which Go maps through its Unicode tables) are left
  as they are here; the program only ever passes a drive captured by \<^verbatim>\<open>[a-zA-Z]\<close>.
\<close>

definition upper_byte :: "char \<Rightarrow> char" where
  "upper_byte c =
     (if CHR ''a'' \<le> c \<and> c \<le> CHR ''z'' then char_of (of_char c - (32::nat)) else c)"

definition ToUpper :: "string \<Rightarrow> string" where
  "ToUpper s = map upper_byte s"

text \<open>
  \<^verbatim>\<open>strings.ReplaceAll(s, old, new)\<close> for a non-empty pattern: scanning from the left,
  every non-overlapping occurrence of \<open>old\<close> is replaced by \<open>new\<close>. (For the empty
  pattern Go inserts \<open>new\<close> around every rune; the program never passes it, and this
  model returns \<open>s\<close> there.)
\<close>

function ReplaceAll :: "string \<Rightarrow> string \<Rightarrow> string \<Rightarrow> string" where
  "ReplaceAll [] old new = []"
| "ReplaceAll (c # cs) old new =
     (if old \<noteq> [] \<and> take (length old) (c # cs) = old
      then new @ ReplaceAll (drop (length old) (c # cs)) old new
      else c # ReplaceAll cs old new)"
  by pat_completeness auto
termination
  by (relation "measure (\<lambda>(s, old, new). length s)") auto

text \<open>\<^verbatim>\<open>strings.HasSuffix\<close>: \<^verbatim>\<open>len(s) >= len(suffix) && s[len(s)-len(suffix):] == suffix\<close>.\<close>

definition HasSuffix :: "string \<Rightarrow> string \<Rightarrow> bool" where
  "HasSuffix s suf \<longleftrightarrow> length suf \<le> length s \<and> drop (length s - length suf) s = suf"

text \<open>
  \<^verbatim>\<open>strings.SplitN(s, "=", 2)\<close>: one element when \<open>s\<close> has no separator, otherwise the
  text before the first separator and everything after it.
\<close>

definition SplitN2 :: "string \<Rightarrow> char \<Rightarrow> string list" where
  "SplitN2 s sep =
     (if sep \<in> set s
      then [takeWhile (\<lambda>c. c \<noteq> sep) s, tl (dropWhile (\<lambda>c. c \<noteq> sep) s)]
      else [s])"

subsection \<open>The two regular expressions\<close>

definition is_drive_letter :: "char \<Rightarrow> bool" where
  "is_drive_letter c \<longleftrightarrow>
     (CHR ''a'' \<le> c \<and> c \<le> CHR ''z'') \<or> (CHR ''A'' \<le> c \<and> c \<le> CHR ''Z'')"

definition is_separator :: "char \<Rightarrow> bool" where
  "is_separator c \<longleftrightarrow> c = backslash \<or> c = CHR ''/''"

text \<open>
  \<^verbatim>\<open>bindRegex = ^([a-zA-Z]):[\\/]([^:]+)(.*)\<close>, as \<^verbatim>\<open>FindStringSubmatch\<close>: \<open>None\<close> is
  Go's \<^verbatim>\<open>nil\<close>, and \<open>Some (g1, g2, g3)\<close> carries \<^verbatim>\<open>match[1]\<close>, \<^verbatim>\<open>match[2]\<close>,
  \<^verbatim>\<open>match[3]\<close>. The pattern is anchored at the start only. \<^verbatim>\<open>[^:]+\<close> is greedy and takes
  the longest run of bytes other than a colon (a negated class matches a line feed); it
  must take at least one. \<^verbatim>\<open>(.*)\<close> then takes the longest run that \<^verbatim>\<open>.\<close> matches, and
  without the \<^verbatim>\<open>s\<close> flag \<^verbatim>\<open>.\<close> does not match a line feed. Since \<^verbatim>\<open>(.*)\<close> also matches
  the empty string, the greedy choice for group 2 never has to be given back.
\<close>

fun bindRegex :: "string \<Rightarrow> (string \<times> string \<times> string) option" where
  "bindRegex (d # c # sep # rest) =
     (if is_drive_letter d \<and> c = CHR '':'' \<and> is_separator sep
         \<and> takeWhile (\<lambda>x. x \<noteq> CHR '':'') rest \<noteq> []
      then Some ([d], takeWhile (\<lambda>x. x \<noteq> CHR '':'') rest,
                 takeWhile (\<lambda>x. x \<noteq> linefeed) (dropWhile (\<lambda>x. x \<noteq> CHR '':'') rest))
      else None)"
| "bindRegex _ = None"

text \<open>
  \<^verbatim>\<open>envPathRegex = ^([a-zA-Z]):[\\/](.*)\<close>: \<open>Some (g1, g2)\<close> carries \<^verbatim>\<open>match[1]\<close> and
  \<^verbatim>\<open>match[2]\<close>; \<^verbatim>\<open>MatchString\<close> is true exactly when there is a match.
\<close>

fun envPathRegex :: "string \<Rightarrow> (string \<times> string) option" where
  "envPathRegex (d # c # sep # rest) =
     (if is_drive_letter d \<and> c = CHR '':'' \<and> is_separator sep
      then Some ([d], takeWhile (\<lambda>x. x \<noteq> linefeed) rest)
      else None)"
| "envPathRegex _ = None"

definition envPathRegex_MatchString :: "string \<Rightarrow> bool" where
  "envPathRegex_MatchString s \<longleftrightarrow> envPathRegex s \<noteq> None"

subsection \<open>Path translation\<close>

definition translateWinPath :: "string \<Rightarrow> string \<Rightarrow> string \<Rightarrow> string" where
  "translateWinPath basePath drive path =
     (let drive' = ToUpper drive;
          path' = ReplaceAll path [backslash] ''/'';
          basePath' = (if \<not> HasSuffix basePath ''/'' then basePath @ ''/'' else basePath)
      in basePath' @ drive' @ ''/'' @ path')"

subsection \<open>The decoded payload\<close>

text \<open>
  \<^verbatim>\<open>json.Unmarshal\<close> into \<^verbatim>\<open>map[string]interface{}\<close> yields a tree of \<^verbatim>\<open>nil\<close>,
  \<^verbatim>\<open>bool\<close>, \<^verbatim>\<open>float64\<close>, \<^verbatim>\<open>string\<close>, \<^verbatim>\<open>[]interface{}\<close> and
  \<^verbatim>\<open>map[string]interface{}\<close>. Numbers play no role in the program, so their type is a
  parameter. An object is an association list: its order stands for the order in which
  the runtime happens to iterate the map, lookups go through \<^const>\<open>map_of\<close>. The keys
  of a decoded map are distinct; no result below depends on that.
\<close>

datatype 'n json =
    JNull
  | JBool bool
  | JNumber 'n
  | JString string
  | JArray "'n json list"
  | JObject "(string \<times> 'n json) list"

subsection \<open>Rewriting bind declarations (lines 120--131)\<close>

text \<open>
  One iteration of the loop over \<^verbatim>\<open>binds\<close>: \<open>Some b'\<close> when \<^verbatim>\<open>binds[i]\<close> is assigned
  (and \<^verbatim>\<open>modified\<close> set), \<open>None\<close> when the element is left alone.
\<close>

definition rewriteBind :: "string \<Rightarrow> 'n json \<Rightarrow> 'n json option" where
  "rewriteBind basePath b =
     (case b of
        JString s \<Rightarrow>
          (case bindRegex s of
             Some (g1, g2, g3) \<Rightarrow> Some (JString (translateWinPath basePath g1 g2 @ g3))
           | None \<Rightarrow> None)
      | _ \<Rightarrow> None)"

fun rewriteBinds :: "string \<Rightarrow> 'n json list \<Rightarrow> bool \<Rightarrow> 'n json list \<times> bool" where
  "rewriteBinds basePath [] modified = ([], modified)"
| "rewriteBinds basePath (b # bs) modified =
     (case rewriteBind basePath b of
        Some b' \<Rightarrow>
          (let (bs', m) = rewriteBinds basePath bs True in (b' # bs', m))
      | None \<Rightarrow>
          (let (bs', m) = rewriteBinds basePath bs modified in (b # bs', m)))"

subsection \<open>Rewriting environment declarations (lines 150--163)\<close>

definition rewriteEnv :: "string \<Rightarrow> 'n json \<Rightarrow> 'n json option" where
  "rewriteEnv basePath e =
     (case e of
        JString s \<Rightarrow>
          (case SplitN2 s (CHR ''='') of
             [k, v] \<Rightarrow>
               (if envPathRegex_MatchString v
                then (case envPathRegex v of
                        Some (g1, g2) \<Rightarrow>
                          Some (JString (k @ ''='' @ translateWinPath basePath g1 g2))
                      | None \<Rightarrow> None)
                else None)
           | _ \<Rightarrow> None)
      | _ \<Rightarrow> None)"

fun rewriteEnvs :: "string \<Rightarrow> 'n json list \<Rightarrow> bool \<Rightarrow> 'n json list \<times> bool" where
  "rewriteEnvs basePath [] modified = ([], modified)"
| "rewriteEnvs basePath (e # es) modified =
     (case rewriteEnv basePath e of
        Some e' \<Rightarrow>
          (let (es', m) = rewriteEnvs basePath es True in (e' # es', m))
      | None \<Rightarrow>
          (let (es', m) = rewriteEnvs basePath es modified in (e # es', m)))"

subsection \<open>Port discovery (lines 134--146)\<close>

text \<open>
  The inner loop over one list of binding descriptors, and the outer loop over the
  entries of \<^verbatim>\<open>PortBindings\<close>. The result lists the \<^verbatim>\<open>go startForwarder(hostPort, ...)\<close>
  statements executed, in execution order.
\<close>

fun hostPorts :: "'n json list \<Rightarrow> string list" where
  "hostPorts [] = []"
| "hostPorts (b # bs) =
     (case b of
        JObject bMap \<Rightarrow>
          (case map_of bMap ''HostPort'' of
             Some (JString hostPort) \<Rightarrow> hostPort # hostPorts bs
           | _ \<Rightarrow> hostPorts bs)
      | _ \<Rightarrow> hostPorts bs)"

fun discoverPorts :: "(string \<times> 'n json) list \<Rightarrow> string list" where
  "discoverPorts [] = []"
| "discoverPorts ((k, bindings) # rest) =
     (case bindings of
        JArray bList \<Rightarrow> hostPorts bList @ discoverPorts rest
      | _ \<Rightarrow> discoverPorts rest)"

subsection \<open>The request rewriter \<^verbatim>\<open>modifyAndExtract\<close> (lines 96--177)\<close>

text \<open>
  A request body is absent (\<^verbatim>\<open>nil\<close> or \<^verbatim>\<open>http.NoBody\<close>) or a reader; \<^verbatim>\<open>io.ReadAll\<close> on
  the reader gives its bytes (\<open>Some\<close>) or an error (\<open>None\<close>).
\<close>

datatype body = NoBody | Reader "string option"

record request =
  Body :: body
  ContentLength :: int

text \<open>
  What one call leaves behind: the request, the forwarders it started as
  \<open>(port, targetIP)\<close> pairs, and the final value of the local flag \<^verbatim>\<open>modified\<close>
  (\<open>False\<close> on the early returns, which come before the flag exists).
\<close>

record outcome =
  out_req :: request
  spawned :: "(string \<times> string) list"
  was_modified :: bool

text \<open>
  The block under \<^verbatim>\<open>HostConfig\<close> (lines 118--147): the host configuration with its
  \<^verbatim>\<open>Binds\<close> slice updated in place, the flag, and the ports discovered.
\<close>

definition rewriteHostConfig ::
  "string \<Rightarrow> (string \<times> 'n json) list \<Rightarrow> (string \<times> 'n json) list \<times> bool \<times> string list" where
  "rewriteHostConfig basePath hostConfig =
     (let (hostConfig', modified) =
            (case map_of hostConfig ''Binds'' of
               Some (JArray binds) \<Rightarrow>
                 (let (binds', m) = rewriteBinds basePath binds False
                  in (AList.update ''Binds'' (JArray binds') hostConfig, m))
             | _ \<Rightarrow> (hostConfig, False));
          ports =
            (case map_of hostConfig ''PortBindings'' of
               Some (JObject portBindings) \<Rightarrow> discoverPorts portBindings
             | _ \<Rightarrow> [])
      in (hostConfig', modified, ports))"

text \<open>
  The walk over the decoded tree (lines 115--163): the tree after the in-place
  assignments, the flag, and the ports discovered.
\<close>

definition rewriteTree ::
  "string \<Rightarrow> (string \<times> 'n json) list \<Rightarrow> (string \<times> 'n json) list \<times> bool \<times> string list" where
  "rewriteTree basePath containerMap =
     (let (cm1, m1, ports) =
            (case map_of containerMap ''HostConfig'' of
               Some (JObject hostConfig) \<Rightarrow>
                 (let (hostConfig', m, ps) = rewriteHostConfig basePath hostConfig
                  in (AList.update ''HostConfig'' (JObject hostConfig') containerMap, m, ps))
             | _ \<Rightarrow> (containerMap, False, []));
          (cm2, m2) =
            (case map_of cm1 ''Env'' of
               Some (JArray envs) \<Rightarrow>
                 (let (envs', m) = rewriteEnvs basePath envs m1
                  in (AList.update ''Env'' (JArray envs') cm1, m))
             | _ \<Rightarrow> (cm1, m1))
      in (cm2, m2, ports))"

text \<open>
  \<^verbatim>\<open>json.Unmarshal\<close> and \<^verbatim>\<open>json.Marshal\<close> belong to the Go library and are parameters:
  \<open>unmarshal bytes\<close> is \<open>None\<close> when \<^verbatim>\<open>Unmarshal\<close> returns an error and the decoded
  map otherwise; \<open>marshal\<close> gives the bytes \<^verbatim>\<open>Marshal\<close> returns (its error is
  discarded by the program).
\<close>

definition modifyAndExtract ::
  "(string \<Rightarrow> (string \<times> 'n json) list option) \<Rightarrow> ((string \<times> 'n json) list \<Rightarrow> string) \<Rightarrow>
   request \<Rightarrow> string \<Rightarrow> string \<Rightarrow> outcome" where
  "modifyAndExtract unmarshal marshal req basePath targetIP =
     (case Body req of
        NoBody \<Rightarrow> \<lparr>out_req = req, spawned = [], was_modified = False\<rparr>
      | Reader None \<Rightarrow> \<lparr>out_req = req, spawned = [], was_modified = False\<rparr>
      | Reader (Some bodyBytes) \<Rightarrow>
          (case unmarshal bodyBytes of
             None \<Rightarrow>
               \<lparr>out_req = req\<lparr>Body := Reader (Some bodyBytes)\<rparr>,
                spawned = [], was_modified = False\<rparr>
           | Some containerMap \<Rightarrow>
               (let (containerMap', modified, ports) = rewriteTree basePath containerMap;
                    finalBytes = (if modified then marshal containerMap' else bodyBytes)
                in \<lparr>out_req = req\<lparr>Body := Reader (Some finalBytes),
                                    ContentLength := int (length finalBytes)\<rparr>,
                    spawned = map (\<lambda>hostPort. (hostPort, targetIP)) ports,
                    was_modified = modified\<rparr>)))"

subsection \<open>The forward registry and \<^verbatim>\<open>startForwarder\<close> (lines 180--197)\<close>

text \<open>
  \<^verbatim>\<open>activeForwards\<close> is a \<^verbatim>\<open>map[string]bool\<close>; reading a missing key gives \<^verbatim>\<open>false\<close>.
\<close>

type_synonym registry = "string \<rightharpoonup> bool"

definition active :: "registry \<Rightarrow> string \<Rightarrow> bool" where
  "active af port = (case af port of Some b \<Rightarrow> b | None \<Rightarrow> False)"

text \<open>
  The critical section between \<^verbatim>\<open>forwardMutex.Lock()\<close> and \<^verbatim>\<open>forwardMutex.Unlock()\<close>
  (lines 181--187): the registry afterwards, and whether the caller goes on to listen.
\<close>

definition testAndSet :: "registry \<Rightarrow> string \<Rightarrow> registry \<times> bool" where
  "testAndSet af port =
     (if active af port then (af, False) else (af(port \<mapsto> True), True))"

text \<open>
  Where a goroutine running \<^verbatim>\<open>startForwarder(port, targetIP)\<close> stands: before the lock
  (line 181), returned as a no-op (line 184), registered and about to call
  \<^verbatim>\<open>net.Listen\<close> (line 192), returned after a failed \<^verbatim>\<open>net.Listen\<close> (line 195), or in
  the accept loop of its listener (lines 199--215), which it never leaves.
\<close>

datatype pc = AtLock | ReturnedNoop | AtListen | ReturnedFailed | Accepting

record system =
  activeForwards :: registry
  goroutines :: "(string \<times> pc) list"

text \<open>
  The mutex makes the critical section atomic, so a run of the process is an
  interleaving of three kinds of step: a request handler executes
  \<^verbatim>\<open>go startForwarder(port, ...)\<close>; goroutine \<open>i\<close> passes through its critical section;
  goroutine \<open>i\<close> calls \<^verbatim>\<open>net.Listen\<close>, which the operating system grants or refuses. A
  step that names a goroutine which does not stand at that point changes nothing.
\<close>

datatype event = Go string | Lock nat | Listen nat bool

fun step :: "system \<Rightarrow> event \<Rightarrow> system" where
  "step s (Go port) = s\<lparr>goroutines := goroutines s @ [(port, AtLock)]\<rparr>"
| "step s (Lock i) =
     (if i < length (goroutines s) \<and> snd (goroutines s ! i) = AtLock
      then (let port = fst (goroutines s ! i);
                (af, won) = testAndSet (activeForwards s) port
            in s\<lparr>activeForwards := af,
                 goroutines := (goroutines s)[i := (port, if won then AtListen else ReturnedNoop)]\<rparr>)
      else s)"
| "step s (Listen i ok) =
     (if i < length (goroutines s) \<and> snd (goroutines s ! i) = AtListen
      then s\<lparr>goroutines :=
               (goroutines s)[i := (fst (goroutines s ! i),
                                    if ok then Accepting else ReturnedFailed)]\<rparr>
      else s)"

definition run :: "system \<Rightarrow> event list \<Rightarrow> system" where
  "run = foldl step"

definition init :: system where
  "init = \<lparr>activeForwards = Map.empty, goroutines = []\<rparr>"

text \<open>
  A goroutine has won the test-and-set for its port once it stands anywhere past the
  critical section other than the no-op return; \<open>winners s port\<close> are those goroutines,
  \<open>listeners s port\<close> the ones whose listener is bound.
\<close>

definition won :: "pc \<Rightarrow> bool" where
  "won c \<longleftrightarrow> c = AtListen \<or> c = ReturnedFailed \<or> c = Accepting"

definition winners :: "system \<Rightarrow> string \<Rightarrow> (string \<times> pc) list" where
  "winners s port = filter (\<lambda>g. fst g = port \<and> won (snd g)) (goroutines s)"

definition listeners :: "system \<Rightarrow> string \<Rightarrow> (string \<times> pc) list" where
  "listeners s port = filter (\<lambda>g. fst g = port \<and> snd g = Accepting) (goroutines s)"

definition registry_inv :: "system \<Rightarrow> bool" where
  "registry_inv s \<longleftrightarrow>
     (\<forall>port. length (winners s port) = (if active (activeForwards s) port then 1 else 0))"

subsection \<open>Notions of the specification\<close>

text \<open>
  The specification's reading of the base path, ``adjusted to end in exactly one trailing
  slash'': every trailing slash is removed and one is put back. \<open>spec_translate\<close> is the
  translated path as the specification writes it.
\<close>

definition spec_base :: "string \<Rightarrow> string" where
  "spec_base b = rev (dropWhile (\<lambda>c. c = CHR ''/'') (rev b)) @ ''/''"

definition spec_translate :: "string \<Rightarrow> string \<Rightarrow> string \<Rightarrow> string" where
  "spec_translate b d p =
     spec_base b @ ToUpper d @ ''/'' @ map (\<lambda>c. if c = backslash then CHR ''/'' else c) p"

text \<open>
  An element of the binds list matches when it is a string that \<^const>\<open>bindRegex\<close>
  accepts; an element of the environment list matches when it is a string \<open>KEY=VALUE\<close>
  whose value (everything after the first \<open>=\<close>) begins with a drive letter, a colon and
  a separator.
\<close>

definition bind_matches :: "'n json \<Rightarrow> bool" where
  "bind_matches b = (case b of JString s \<Rightarrow> bindRegex s \<noteq> None | _ \<Rightarrow> False)"

definition env_matches :: "'n json \<Rightarrow> bool" where
  "env_matches e =
     (case e of
        JString s \<Rightarrow>
          CHR ''='' \<in> set s
          \<and> envPathRegex_MatchString (tl (dropWhile (\<lambda>c. c \<noteq> CHR ''='') s))
      | _ \<Rightarrow> False)"

text \<open>
  The host port a binding descriptor carries, if it is an object with a string under
  \<^verbatim>\<open>HostPort\<close>, and the host ports a port-bindings mapping declares: one entry for every
  such descriptor, duplicates included.
\<close>

definition descriptor_port :: "'n json \<Rightarrow> string option" where
  "descriptor_port b =
     (case b of
        JObject bMap \<Rightarrow>
          (case map_of bMap ''HostPort'' of Some (JString hostPort) \<Rightarrow> Some hostPort | _ \<Rightarrow> None)
      | _ \<Rightarrow> None)"

definition declared_ports :: "(string \<times> 'n json) list \<Rightarrow> string list" where
  "declared_ports portBindings =
     concat (map (\<lambda>(k, bindings).
                    case bindings of
                      JArray bList \<Rightarrow> List.map_filter descriptor_port bList
                    | _ \<Rightarrow> [])
                 portBindings)"

subsection \<open>Sample inputs\<close>

text \<open>
  A decoded container-creation payload with a Linux bind, two port entries (the host port
  54322 declared twice) and an environment variable that is not a Windows path.
\<close>

definition sample_portBindings :: "(string \<times> unit json) list" where
  "sample_portBindings =
     [(''5432/tcp'', JArray [JObject [(''HostIp'', JString []),
                                      (''HostPort'', JString ''54322'')]]),
      (''80/tcp'', JArray [JObject [(''HostPort'', JString ''8080'')],
                           JObject [(''HostPort'', JString ''54322'')]])]"

definition sample_hostConfig :: "(string \<times> unit json) list" where
  "sample_hostConfig =
     [(''Binds'', JArray [JString ''/srv/data:/app'']),
      (''PortBindings'', JObject sample_portBindings)]"

definition sample_tree :: "(string \<times> unit json) list" where
  "sample_tree =
     [(''HostConfig'', JObject sample_hostConfig),
      (''Env'', JArray [JString ''NAME=value''])]"

definition sample_request :: request where
  "sample_request = \<lparr>Body = Reader (Some ''(payload bytes)''), ContentLength = 0\<rparr>"

text \<open>
  A payload with a Windows bind and a Windows path in the environment, and the tree the
  rewriter turns it into for the base \<^verbatim>\<open>/vol/\<close>.
\<close>

definition windows_tree :: "(string \<times> unit json) list" where
  "windows_tree =
     [(''HostConfig'', JObject
         [(''Binds'', JArray [JString (''C:'' @ [backslash] @ ''data:/app:ro'')]),
          (''PortBindings'', JObject [(''5432/tcp'', JArray [JObject [(''HostPort'', JString ''54322'')]])])]),
      (''Env'', JArray [JString (''DB_PATH=C:'' @ [backslash] @ ''config'' @ [backslash] @ ''db'')])]"

definition windows_tree_rewritten :: "(string \<times> unit json) list" where
  "windows_tree_rewritten =
     [(''HostConfig'', JObject
         [(''Binds'', JArray [JString ''/vol/C/data:/app:ro'']),
          (''PortBindings'', JObject [(''5432/tcp'', JArray [JObject [(''HostPort'', JString ''54322'')]])])]),
      (''Env'', JArray [JString ''DB_PATH=/vol/C/config/db''])]"

section \<open>Path translation\<close>

subsection \<open>Facts about the string functions\<close>

lemma ReplaceAll_single:
  "ReplaceAll s [a] [b] = map (\<lambda>c. if c = a then b else c) s"
  by (induction s) auto

lemma HasSuffix_slash:
  "HasSuffix s ''/'' \<longleftrightarrow> s \<noteq> [] \<and> last s = CHR ''/''"
proof (cases s rule: rev_cases)
  case Nil
  then show ?thesis by (simp add: HasSuffix_def)
next
  case (snoc ys y)
  then show ?thesis by (simp add: HasSuffix_def)
qed

lemma upper_byte_lower:
  assumes "CHR ''a'' \<le> c" "c \<le> CHR ''z''"
  shows "of_char (upper_byte c) = (of_char c :: nat) - 32"
  using assms by (simp add: upper_byte_def less_eq_char_def)

lemma upper_byte_is_upper:
  assumes "is_drive_letter c"
  shows "CHR ''A'' \<le> upper_byte c \<and> upper_byte c \<le> CHR ''Z''"
  using assms unfolding is_drive_letter_def upper_byte_def less_eq_char_def
  by auto

lemma translateWinPath_shape:
  "translateWinPath b d p =
     (if HasSuffix b ''/'' then b else b @ ''/'') @ map upper_byte d @ ''/''
       @ map (\<lambda>c. if c = backslash then CHR ''/'' else c) p"
  by (simp add: translateWinPath_def ToUpper_def ReplaceAll_single Let_def)

lemma spec_base_agrees:
  assumes "\<not> HasSuffix b ''//''"
  shows "spec_base b = (if HasSuffix b ''/'' then b else b @ ''/'')"
proof (cases b rule: rev_cases)
  case Nil
  then show ?thesis by (simp add: spec_base_def HasSuffix_def)
next
  case outer: (snoc ys y)
  show ?thesis
  proof (cases ys rule: rev_cases)
    case Nil
    with outer show ?thesis by (simp add: spec_base_def HasSuffix_def)
  next
    case (snoc zs z)
    with outer assms show ?thesis
      by (auto simp add: spec_base_def HasSuffix_def)
  qed
qed

subsection \<open>The shape of a translated path\<close>

text \<open>
  C2, as amended. For every base \<open>b\<close>, every drive letter \<open>d\<close> in \<^verbatim>\<open>[a-zA-Z]\<close> and every
  sub-path \<open>p\<close>, \<open>translateWinPath b d p\<close> is \<open>b'\<close>, then the upper-case form of \<open>d\<close>, then a
  slash, then \<open>p\<close> with every backslash turned into a slash, where \<open>b'\<close> is \<open>b\<close> itself when
  \<open>b\<close> already ends in a slash and \<open>b\<close> followed by one slash otherwise. The drive segment is
  a letter in \<^verbatim>\<open>A..Z\<close> (a lower-case letter moved down by 32, an upper-case letter kept).
  Whenever \<open>b\<close> does not end in two or more slashes, \<open>b'\<close> ends in exactly one slash and the
  result is the specification's. The function is total and has no error result.
\<close>

theorem translateWinPath_result:
  assumes "is_drive_letter d"
  shows "translateWinPath b [d] p =
           (if HasSuffix b ''/'' then b else b @ ''/'') @ [upper_byte d] @ ''/''
             @ map (\<lambda>c. if c = backslash then CHR ''/'' else c) p
         \<and> CHR ''A'' \<le> upper_byte d \<and> upper_byte d \<le> CHR ''Z''
         \<and> (of_char (upper_byte d) :: nat) =
             (if CHR ''a'' \<le> d then of_char d - 32 else of_char d)
         \<and> (\<not> HasSuffix b ''//'' \<longrightarrow> translateWinPath b [d] p = spec_translate b [d] p)"
proof -
  have shape: "translateWinPath b [d] p =
           (if HasSuffix b ''/'' then b else b @ ''/'') @ [upper_byte d] @ ''/''
             @ map (\<lambda>c. if c = backslash then CHR ''/'' else c) p"
    by (simp add: translateWinPath_shape)
  have upper: "CHR ''A'' \<le> upper_byte d \<and> upper_byte d \<le> CHR ''Z''"
    using assms by (rule upper_byte_is_upper)
  have code: "(of_char (upper_byte d) :: nat) =
             (if CHR ''a'' \<le> d then of_char d - 32 else of_char d)"
  proof (cases "CHR ''a'' \<le> d")
    case True
    moreover from True assms have "d \<le> CHR ''z''"
      by (auto simp: is_drive_letter_def less_eq_char_def)
    ultimately show ?thesis by (simp add: upper_byte_lower)
  next
    case False
    then show ?thesis by (simp add: upper_byte_def)
  qed
  have spec: "\<not> HasSuffix b ''//'' \<longrightarrow> translateWinPath b [d] p = spec_translate b [d] p"
    by (simp add: translateWinPath_shape spec_translate_def spec_base_agrees ToUpper_def)
  from shape upper code spec show ?thesis by blast
qed

text \<open>
  The theorem at the default base without its trailing slash, drive \<open>c\<close> and the sub-path
  \<^verbatim>\<open>Users\me\<close>.
\<close>

theorem translateWinPath_result_witness:
  "is_drive_letter CHR ''c''
   \<and> translateWinPath ''/mnt/hgfs/docker/volumes'' ''c'' (''Users'' @ [backslash] @ ''me'')
       = ''/mnt/hgfs/docker/volumes/C/Users/me''
   \<and> \<not> HasSuffix ''/mnt/hgfs/docker/volumes'' ''//''
   \<and> spec_translate ''/mnt/hgfs/docker/volumes'' ''c'' (''Users'' @ [backslash] @ ''me'')
       = ''/mnt/hgfs/docker/volumes/C/Users/me''"
proof -
  have d: "is_drive_letter CHR ''c''" by code_simp
  show ?thesis
    using d translateWinPath_result[OF d, of "''/mnt/hgfs/docker/volumes''"
        "''Users'' @ [backslash] @ ''me''"]
    by code_simp
qed

text \<open>
  The claim as the specification states it fails for a base that ends in two slashes: the
  code keeps both, the specification's \<open>b'\<close> has one.
\<close>

theorem translateWinPath_keeps_double_slash:
  "translateWinPath ''/vol//'' ''c'' ''x'' = ''/vol//C/x''
   \<and> translateWinPath ''/vol//'' ''c'' ''x'' \<noteq> spec_translate ''/vol//'' ''c'' ''x''"
  by code_simp

subsection \<open>Translated paths and the two patterns\<close>

lemma envPathRegex_first:
  "envPathRegex (c # r) = Some y \<Longrightarrow> is_drive_letter c"
  by (cases "c # r" rule: envPathRegex.cases) (auto split: if_splits)

lemma envPathRegex_second:
  "envPathRegex (c # c' # r) = Some y \<Longrightarrow> c' = CHR '':''"
  by (cases "c # c' # r" rule: envPathRegex.cases) (auto split: if_splits)

lemma slash_not_drive_letter: "\<not> is_drive_letter (CHR ''/'')"
  by (simp add: is_drive_letter_def less_eq_char_def)

lemma envPathRegex_slash_append:
  "envPathRegex_MatchString (x @ ''/'' @ r) \<longleftrightarrow> envPathRegex_MatchString (x @ ''/'')"
proof (cases x)
  case Nil
  then show ?thesis
    using envPathRegex_first[of "CHR ''/''" r] slash_not_drive_letter
    by (auto simp: envPathRegex_MatchString_def)
next
  case one: (Cons a xs)
  show ?thesis
  proof (cases xs)
    case Nil
    with one show ?thesis
      using envPathRegex_second[of a "CHR ''/''" r]
      by (auto simp: envPathRegex_MatchString_def)
  next
    case two: (Cons b ys)
    show ?thesis
    proof (cases ys)
      case Nil
      with one two show ?thesis by (simp add: envPathRegex_MatchString_def)
    next
      case (Cons c zs)
      with one two show ?thesis by (simp add: envPathRegex_MatchString_def)
    qed
  qed
qed

lemma translateWinPath_matches_iff:
  "envPathRegex_MatchString (translateWinPath b d p @ t)
     \<longleftrightarrow> envPathRegex_MatchString (b @ ''/'')"
proof (cases "HasSuffix b ''/''")
  case True
  then obtain x where b: "b = x @ ''/''"
    by (cases b rule: rev_cases) (auto simp: HasSuffix_slash)
  have "translateWinPath b d p @ t = x @ ''/'' @ (map upper_byte d @ ''/''
       @ map (\<lambda>c. if c = backslash then CHR ''/'' else c) p @ t)"
    using True b by (simp add: translateWinPath_shape)
  then have "envPathRegex_MatchString (translateWinPath b d p @ t)
      \<longleftrightarrow> envPathRegex_MatchString (x @ ''/'')"
    by (simp only: envPathRegex_slash_append)
  moreover have "envPathRegex_MatchString (b @ ''/'') \<longleftrightarrow> envPathRegex_MatchString (x @ ''/'')"
    using envPathRegex_slash_append[of x "''/''"] b by simp
  ultimately show ?thesis by simp
next
  case False
  have "translateWinPath b d p @ t = b @ ''/'' @ (map upper_byte d @ ''/''
       @ map (\<lambda>c. if c = backslash then CHR ''/'' else c) p @ t)"
    using False by (simp add: translateWinPath_shape)
  then show ?thesis
    by (simp only: envPathRegex_slash_append)
qed

lemma bindRegex_imp_envPathRegex:
  "bindRegex s \<noteq> None \<Longrightarrow> envPathRegex_MatchString s"
  by (cases s rule: bindRegex.cases) (auto simp: envPathRegex_MatchString_def split: if_splits)

section \<open>Payload rewriting\<close>

subsection \<open>Splitting and matching\<close>

lemma takeWhile_upto_sep:
  "sep \<notin> set k \<Longrightarrow> takeWhile (\<lambda>c. c \<noteq> sep) (k @ sep # v) = k"
  by (induction k) auto

lemma dropWhile_upto_sep:
  "sep \<notin> set k \<Longrightarrow> dropWhile (\<lambda>c. c \<noteq> sep) (k @ sep # v) = sep # v"
  by (induction k) auto

lemma takeWhile_absent:
  "c \<notin> set xs \<Longrightarrow> takeWhile (\<lambda>x. x \<noteq> c) xs = xs"
  by (induction xs) auto

lemma SplitN2_key_value:
  "sep \<notin> set k \<Longrightarrow> SplitN2 (k @ sep # v) sep = [k, v]"
  by (simp add: SplitN2_def takeWhile_upto_sep dropWhile_upto_sep)

lemma SplitN2_cases:
  "SplitN2 s sep = [s] \<and> sep \<notin> set s
   \<or> (\<exists>k v. s = k @ sep # v \<and> sep \<notin> set k \<and> SplitN2 s sep = [k, v])"
proof (cases "sep \<in> set s")
  case True
  then obtain k v where "s = k @ sep # v" "sep \<notin> set k"
    by (meson split_list_first)
  then show ?thesis using SplitN2_key_value by blast
next
  case False
  then show ?thesis by (simp add: SplitN2_def)
qed

lemma takeWhile_no_colon:
  "CHR '':'' \<notin> set p \<Longrightarrow> t = [] \<or> hd t = CHR '':'' \<Longrightarrow>
   takeWhile (\<lambda>x. x \<noteq> CHR '':'') (p @ t) = p \<and> dropWhile (\<lambda>x. x \<noteq> CHR '':'') (p @ t) = t"
  by (induction p) (cases t; auto)+

text \<open>
  What \<^const>\<open>bindRegex\<close> captures from a string laid out as drive letter, colon,
  separator, a non-empty sub-path \<open>p\<close> free of colons, and a rest \<open>t\<close> that is empty or
  starts at the next colon: group 3 is \<open>t\<close> cut at its first line feed.
\<close>

lemma bindRegex_decompose:
  assumes "is_drive_letter d" "is_separator sep" "p \<noteq> []" "CHR '':'' \<notin> set p"
    "t = [] \<or> hd t = CHR '':''"
  shows "bindRegex (d # CHR '':'' # sep # p @ t) =
           Some ([d], p, takeWhile (\<lambda>x. x \<noteq> linefeed) t)"
  using assms takeWhile_no_colon[of p t] by simp

text \<open>
  For a rest without a line feed the bind element becomes the translated path followed
  by the whole rest (scenarios 1 and 2 of the specification are instances).
\<close>

lemma rewriteBind_decompose:
  assumes "is_drive_letter d" "is_separator sep" "p \<noteq> []" "CHR '':'' \<notin> set p"
    "t = [] \<or> hd t = CHR '':''" "linefeed \<notin> set t"
  shows "rewriteBind basePath (JString (d # CHR '':'' # sep # p @ t)) =
           Some (JString (translateWinPath basePath [d] p @ t))"
  using bindRegex_decompose[OF assms(1-5)] assms(6)
  by (simp add: rewriteBind_def takeWhile_absent)

lemma rewriteBind_scenario_2:
  "rewriteBind ''/vol/'' (JString (''C:'' @ [backslash] @ ''data:/app:ro'') :: unit json)
     = Some (JString ''/vol/C/data:/app:ro'')"
  by code_simp

lemma rewriteBind_None_iff: "rewriteBind basePath b = None \<longleftrightarrow> \<not> bind_matches b"
  by (auto simp: rewriteBind_def bind_matches_def split: json.splits option.splits)

lemma rewriteEnv_None_iff: "rewriteEnv basePath e = None \<longleftrightarrow> \<not> env_matches e"
  by (auto simp: rewriteEnv_def env_matches_def SplitN2_def envPathRegex_MatchString_def
      split: json.splits option.splits)

text \<open>
  For a value without a line feed the environment element keeps its key and gets the
  translated value (scenario 3); elements without \<open>=\<close> or with a value that does not
  match are left alone (scenario 6).
\<close>

lemma rewriteEnv_decompose:
  assumes "CHR ''='' \<notin> set k" "is_drive_letter d" "is_separator sep" "linefeed \<notin> set p"
  shows "rewriteEnv basePath (JString (k @ ''='' @ d # CHR '':'' # sep # p)) =
           Some (JString (k @ ''='' @ translateWinPath basePath [d] p))"
  using assms
  by (simp add: rewriteEnv_def SplitN2_key_value envPathRegex_MatchString_def takeWhile_absent)

lemma rewriteEnv_untouched:
  "CHR ''='' \<notin> set s \<Longrightarrow> rewriteEnv basePath (JString s) = None"
  "CHR ''='' \<notin> set k \<Longrightarrow> envPathRegex v = None \<Longrightarrow>
     rewriteEnv basePath (JString (k @ ''='' @ v)) = None"
  by (simp_all add: rewriteEnv_def SplitN2_def SplitN2_key_value envPathRegex_MatchString_def
      takeWhile_upto_sep dropWhile_upto_sep)

lemma rewriteEnv_scenarios:
  "rewriteEnv ''/mnt/hgfs/docker/volumes/''
     (JString (''DB_PATH=C:'' @ [backslash] @ ''config'' @ [backslash] @ ''db'') :: unit json)
     = Some (JString ''DB_PATH=/mnt/hgfs/docker/volumes/C/config/db'')"
  "rewriteEnv ''/mnt/hgfs/docker/volumes/'' (JString ''NAME=value'' :: unit json) = None"
  by code_simp+

lemma rewriteEnv_later_equals_kept:
  "rewriteEnv ''/vol/'' (JString ''OPTS=C:/cfg/a=b=c'' :: unit json)
     = Some (JString ''OPTS=/vol/C/cfg/a=b=c'')"
  by code_simp

lemma rewriteEnv_Some:
  assumes "rewriteEnv basePath e = Some e'"
  shows "\<exists>k v g1 g2. e = JString (k @ CHR ''='' # v) \<and> CHR ''='' \<notin> set k
          \<and> envPathRegex v = Some (g1, g2)
          \<and> e' = JString (k @ CHR ''='' # translateWinPath basePath g1 g2)"
proof -
  from assms obtain s where e: "e = JString s"
    by (cases e) (auto simp: rewriteEnv_def)
  from SplitN2_cases[of s "CHR ''=''"] show ?thesis
  proof
    assume "SplitN2 s (CHR ''='') = [s] \<and> CHR ''='' \<notin> set s"
    with assms e show ?thesis by (simp add: rewriteEnv_def)
  next
    assume "\<exists>k v. s = k @ CHR ''='' # v \<and> CHR ''='' \<notin> set k \<and> SplitN2 s (CHR ''='') = [k, v]"
    then obtain k v where kv: "s = k @ CHR ''='' # v" "CHR ''='' \<notin> set k"
      "SplitN2 s (CHR ''='') = [k, v]"
      by blast
    with assms e show ?thesis
      by (auto simp: rewriteEnv_def split: option.splits if_splits)
  qed
qed

subsection \<open>Unmatched lists and port discovery\<close>

lemma rewriteBinds_no_match:
  "\<forall>b\<in>set bs. \<not> bind_matches b \<Longrightarrow> rewriteBinds basePath bs m = (bs, m)"
  by (induction bs) (simp_all add: rewriteBind_None_iff[THEN iffD2])

lemma rewriteEnvs_no_match:
  "\<forall>e\<in>set es. \<not> env_matches e \<Longrightarrow> rewriteEnvs basePath es m = (es, m)"
  by (induction es) (simp_all add: rewriteEnv_None_iff[THEN iffD2])

lemma hostPorts_map_filter: "hostPorts bs = List.map_filter descriptor_port bs"
  by (induction bs)
     (auto simp: List.map_filter_simps descriptor_port_def split: json.splits option.splits)

lemma discoverPorts_declared: "discoverPorts pb = declared_ports pb"
  by (induction pb rule: discoverPorts.induct)
     (auto simp: declared_ports_def hostPorts_map_filter split: json.splits)

subsection \<open>Rewriting a second time\<close>

lemma rewriteBind_again:
  assumes "\<not> envPathRegex_MatchString (basePath @ ''/'')"
    and "rewriteBind basePath b = Some b'"
  shows "rewriteBind basePath b' = None"
proof -
  from assms(2) obtain g1 g2 g3 where "b' = JString (translateWinPath basePath g1 g2 @ g3)"
    by (auto simp: rewriteBind_def split: json.splits option.splits)
  moreover have "bindRegex (translateWinPath basePath g1 g2 @ g3) = None"
    using assms(1) bindRegex_imp_envPathRegex translateWinPath_matches_iff by blast
  ultimately show ?thesis by (simp add: rewriteBind_def)
qed

lemma rewriteEnv_again:
  assumes "\<not> envPathRegex_MatchString (basePath @ ''/'')"
    and "rewriteEnv basePath e = Some e'"
  shows "rewriteEnv basePath e' = None"
proof -
  from rewriteEnv_Some[OF assms(2)] obtain k g1 g2 where
    k: "CHR ''='' \<notin> set k" and e': "e' = JString (k @ CHR ''='' # translateWinPath basePath g1 g2)"
    by blast
  have "\<not> envPathRegex_MatchString (translateWinPath basePath g1 g2)"
    using assms(1) translateWinPath_matches_iff[of basePath g1 g2 "[]"] by simp
  then show ?thesis
    using k e' by (simp add: rewriteEnv_def SplitN2_key_value)
qed

lemma rewriteBinds_again:
  assumes "\<not> envPathRegex_MatchString (basePath @ ''/'')"
  shows "rewriteBinds basePath (fst (rewriteBinds basePath bs m)) m'
           = (fst (rewriteBinds basePath bs m), m')"
proof (induction bs arbitrary: m)
  case Nil
  then show ?case by simp
next
  case (Cons b bs)
  show ?case
  proof (cases "rewriteBind basePath b")
    case None
    then show ?thesis using Cons[of m] by (simp add: split_beta)
  next
    case (Some b')
    then show ?thesis
      using Cons[of True] rewriteBind_again[OF assms Some] by (simp add: split_beta)
  qed
qed

lemma rewriteEnvs_again:
  assumes "\<not> envPathRegex_MatchString (basePath @ ''/'')"
  shows "rewriteEnvs basePath (fst (rewriteEnvs basePath es m)) m'
           = (fst (rewriteEnvs basePath es m), m')"
proof (induction es arbitrary: m)
  case Nil
  then show ?case by simp
next
  case (Cons e es)
  show ?case
  proof (cases "rewriteEnv basePath e")
    case None
    then show ?thesis using Cons[of m] by (simp add: split_beta)
  next
    case (Some e')
    then show ?thesis
      using Cons[of True] rewriteEnv_again[OF assms Some] by (simp add: split_beta)
  qed
qed

lemma rewriteHostConfig_again:
  assumes base: "\<not> envPathRegex_MatchString (basePath @ ''/'')"
    and r: "rewriteHostConfig basePath hc = (hc', m, ps)"
  shows "rewriteHostConfig basePath hc' = (hc', False, ps)"
proof (cases "\<exists>binds. map_of hc ''Binds'' = Some (JArray binds)")
  case True
  then obtain binds where b: "map_of hc ''Binds'' = Some (JArray binds)" by blast
  define binds' where "binds' = fst (rewriteBinds basePath binds False)"
  from r b have hc': "hc' = AList.update ''Binds'' (JArray binds') hc"
    and ps: "ps = (case map_of hc ''PortBindings'' of
               Some (JObject portBindings) \<Rightarrow> discoverPorts portBindings | _ \<Rightarrow> [])"
    by (auto simp: rewriteHostConfig_def binds'_def split_beta Let_def)
  have 1: "map_of hc' ''Binds'' = Some (JArray binds')"
    by (simp add: hc' update_conv')
  have 2: "map_of hc' ''PortBindings'' = map_of hc ''PortBindings''"
    by (simp add: hc' update_conv')
  have 3: "rewriteBinds basePath binds' False = (binds', False)"
    unfolding binds'_def by (rule rewriteBinds_again[OF base])
  have 4: "AList.update ''Binds'' (JArray binds') hc' = hc'"
    using 1 by (rule update_triv)
  show ?thesis
    by (simp add: rewriteHostConfig_def 1 2 3 4 ps)
next
  case False
  then have "(case map_of hc ''Binds'' of
               Some (JArray binds) \<Rightarrow>
                 (let (binds', m) = rewriteBinds basePath binds False
                  in (AList.update ''Binds'' (JArray binds') hc, m))
             | _ \<Rightarrow> (hc, False)) = (hc, False)"
    by (auto split: option.splits json.splits)
  with r show ?thesis
    by (auto simp: rewriteHostConfig_def)
qed

lemma rewriteTree_again:
  assumes base: "\<not> envPathRegex_MatchString (basePath @ ''/'')"
    and r: "rewriteTree basePath cm = (cm', m, ps)"
  shows "rewriteTree basePath cm' = (cm', False, ps)"
proof -
  obtain cm1 m1 where s1: "(case map_of cm ''HostConfig'' of
               Some (JObject hostConfig) \<Rightarrow>
                 (let (hostConfig', m, ps) = rewriteHostConfig basePath hostConfig
                  in (AList.update ''HostConfig'' (JObject hostConfig') cm, m, ps))
             | _ \<Rightarrow> (cm, False, [])) = (cm1, m1, ps)"
    using r by (auto simp: rewriteTree_def Let_def split: prod.splits)
  have s2: "(case map_of cm1 ''Env'' of
               Some (JArray envs) \<Rightarrow>
                 (let (envs', m) = rewriteEnvs basePath envs m1
                  in (AList.update ''Env'' (JArray envs') cm1, m))
             | _ \<Rightarrow> (cm1, m1)) = (cm', m)"
    using r s1 by (auto simp: rewriteTree_def Let_def split: prod.splits)
  have env_again: "(case map_of cm' ''Env'' of
               Some (JArray envs) \<Rightarrow>
                 (let (envs', m) = rewriteEnvs basePath envs False
                  in (AList.update ''Env'' (JArray envs') cm', m))
             | _ \<Rightarrow> (cm', False)) = (cm', False)"
  proof (cases "\<exists>envs. map_of cm1 ''Env'' = Some (JArray envs)")
    case True
    then obtain envs where e: "map_of cm1 ''Env'' = Some (JArray envs)" by blast
    define envs' where "envs' = fst (rewriteEnvs basePath envs m1)"
    have cm': "cm' = AList.update ''Env'' (JArray envs') cm1"
      using s2 e by (auto simp: envs'_def split: prod.splits)
    have 1: "map_of cm' ''Env'' = Some (JArray envs')"
      by (simp add: cm' update_conv')
    have 2: "rewriteEnvs basePath envs' False = (envs', False)"
      unfolding envs'_def by (rule rewriteEnvs_again[OF base])
    have 3: "AList.update ''Env'' (JArray envs') cm' = cm'"
      using 1 by (rule update_triv)
    show ?thesis by (simp add: 1 2 3)
  next
    case False
    then have "cm' = cm1"
      using s2 by (auto split: option.splits json.splits)
    with False show ?thesis
      by (auto split: option.splits json.splits)
  qed
  have hc_same: "map_of cm' ''HostConfig'' = map_of cm1 ''HostConfig''"
    using s2 by (auto simp: update_conv' split: option.splits json.splits prod.splits)
  have hc_again: "(case map_of cm' ''HostConfig'' of
               Some (JObject hostConfig) \<Rightarrow>
                 (let (hostConfig', m, ps) = rewriteHostConfig basePath hostConfig
                  in (AList.update ''HostConfig'' (JObject hostConfig') cm', m, ps))
             | _ \<Rightarrow> (cm', False, [])) = (cm', False, ps)"
  proof (cases "\<exists>hc. map_of cm ''HostConfig'' = Some (JObject hc)")
    case True
    then obtain hc where hc: "map_of cm ''HostConfig'' = Some (JObject hc)" by blast
    obtain hc' mh where rh: "rewriteHostConfig basePath hc = (hc', mh, ps)"
      and cm1: "cm1 = AList.update ''HostConfig'' (JObject hc') cm"
      using s1 hc by (auto split: prod.splits)
    have "map_of cm' ''HostConfig'' = Some (JObject hc')"
      by (simp add: hc_same cm1 update_conv')
    moreover from this have "AList.update ''HostConfig'' (JObject hc') cm' = cm'"
      by (rule update_triv)
    ultimately show ?thesis
      using rewriteHostConfig_again[OF base rh] by simp
  next
    case False
    then have "cm1 = cm" "ps = []"
      using s1 by (auto split: option.splits json.splits)
    with False hc_same show ?thesis
      by (auto split: option.splits json.splits)
  qed
  show ?thesis
    by (simp add: rewriteTree_def hc_again env_again)
qed

subsection \<open>Idempotence of the rewrite\<close>

text \<open>
  C3, as amended. The base decides: \<^const>\<open>translateWinPath\<close> puts the slash-terminated
  base in front, so its output begins with a drive letter, a colon and a separator
  exactly when the base followed by a slash does (lemma \<open>translateWinPath_matches_iff\<close>).
  For every base \<open>b\<close> such that \<open>b\<close> followed by a slash does not begin with a drive
  letter, a colon and a slash or backslash (every base beginning with a slash is one),
  no output of \<open>translate(b, d, p)\<close>, with or without a trailing suffix, matches either
  pattern; a rewritten bind or environment entry is left alone by a second rewrite; and
  rewriting an already-rewritten tree changes nothing, sets no flag and discovers the
  same ports.
\<close>

theorem rewrite_idempotent:
  assumes "\<not> envPathRegex_MatchString (basePath @ ''/'')"
  shows "envPathRegex (translateWinPath basePath d p) = None
       \<and> bindRegex (translateWinPath basePath d p @ t) = None
       \<and> (rewriteBind basePath b = Some b' \<longrightarrow> rewriteBind basePath b' = None)
       \<and> (rewriteEnv basePath e = Some e' \<longrightarrow> rewriteEnv basePath e' = None)
       \<and> (rewriteTree basePath cm = (cm', m, ps) \<longrightarrow>
            rewriteTree basePath cm' = (cm', False, ps))"
proof -
  have "\<not> envPathRegex_MatchString (translateWinPath basePath d p)"
    using assms translateWinPath_matches_iff[of basePath d p "[]"] by simp
  then have 1: "envPathRegex (translateWinPath basePath d p) = None"
    unfolding envPathRegex_MatchString_def by blast
  have 2: "bindRegex (translateWinPath basePath d p @ t) = None"
    using assms bindRegex_imp_envPathRegex translateWinPath_matches_iff by blast
  from 1 2 rewriteBind_again[OF assms] rewriteEnv_again[OF assms] rewriteTree_again[OF assms]
  show ?thesis by blast
qed

text \<open>The theorem at the base \<^verbatim>\<open>/vol/\<close> and the sample Windows payload.\<close>

theorem rewrite_idempotent_witness:
  "\<not> envPathRegex_MatchString (''/vol/'' @ ''/'')
   \<and> bindRegex (translateWinPath ''/vol/'' ''c'' ''data'' @ '':/app'') = None
   \<and> rewriteBind ''/vol/'' (JString (''C:'' @ [backslash] @ ''data:/app:ro'') :: unit json)
       = Some (JString ''/vol/C/data:/app:ro'')
   \<and> rewriteBind ''/vol/'' (JString ''/vol/C/data:/app:ro'' :: unit json) = None
   \<and> rewriteEnv ''/vol/'' (JString (''DB_PATH=C:'' @ [backslash] @ ''config'') :: unit json)
       = Some (JString ''DB_PATH=/vol/C/config'')
   \<and> rewriteEnv ''/vol/'' (JString ''DB_PATH=/vol/C/config'' :: unit json) = None
   \<and> rewriteTree ''/vol/'' windows_tree = (windows_tree_rewritten, True, [''54322''])
   \<and> rewriteTree ''/vol/'' windows_tree_rewritten = (windows_tree_rewritten, False, [''54322''])"
proof -
  have base: "\<not> envPathRegex_MatchString (''/vol/'' @ ''/'')" by code_simp
  have b: "rewriteBind ''/vol/'' (JString (''C:'' @ [backslash] @ ''data:/app:ro'') :: unit json)
       = Some (JString ''/vol/C/data:/app:ro'')"
    by code_simp
  have e: "rewriteEnv ''/vol/'' (JString (''DB_PATH=C:'' @ [backslash] @ ''config'') :: unit json)
       = Some (JString ''DB_PATH=/vol/C/config'')"
    by code_simp
  have r: "rewriteTree ''/vol/'' windows_tree = (windows_tree_rewritten, True, [''54322''])"
    by code_simp
  show ?thesis
    using base b e r
      rewrite_idempotent[OF base, of "''c''" "''data''" "'':/app''"
        "JString (''C:'' @ [backslash] @ ''data:/app:ro'')" "JString ''/vol/C/data:/app:ro''"
        "JString (''DB_PATH=C:'' @ [backslash] @ ''config'')" "JString ''DB_PATH=/vol/C/config''"
        windows_tree windows_tree_rewritten True "[''54322'']"]
    by blast
qed

text \<open>
  The claim as stated (every non-empty base) fails for the base \<^verbatim>\<open>C:\<close>: the rewritten
  bind matches again and a second rewrite changes it.
\<close>

theorem rewrite_not_idempotent_for_drive_base:
  "rewriteBind ''C:'' (JString ''d:/x:/app'' :: unit json) = Some (JString ''C:/D/x:/app'')
   \<and> rewriteBind ''C:'' (JString ''C:/D/x:/app'' :: unit json) = Some (JString ''C:/C/D/x:/app'')
   \<and> envPathRegex_MatchString (translateWinPath ''C:'' ''d'' ''x'')"
  by code_simp

subsection \<open>Bodies that do not parse\<close>

text \<open>
  C4. When \<^verbatim>\<open>json.Unmarshal\<close> rejects the body (it is not a JSON object), the request
  comes back with the bytes that were read as its body and its content length untouched,
  no forwarder is started, the modification flag is not set, and the function has no
  error result. The same holds for the one body that is not an object and yet decodes
  without error, \<^verbatim>\<open>null\<close>, which gives the empty map: its bytes are kept, with their
  length as content length.
\<close>

theorem modifyAndExtract_not_json:
  assumes "Body req = Reader (Some bodyBytes)"
  shows "(unmarshal bodyBytes = None \<longrightarrow>
            modifyAndExtract unmarshal marshal req basePath targetIP =
              \<lparr>out_req = req, spawned = [], was_modified = False\<rparr>)
       \<and> (unmarshal bodyBytes = Some [] \<longrightarrow>
            modifyAndExtract unmarshal marshal req basePath targetIP =
              \<lparr>out_req = req\<lparr>ContentLength := int (length bodyBytes)\<rparr>,
               spawned = [], was_modified = False\<rparr>)"
proof -
  have "req\<lparr>Body := Reader (Some bodyBytes)\<rparr> = req"
    using assms by simp
  moreover have "req\<lparr>Body := Reader (Some bodyBytes), ContentLength := int (length bodyBytes)\<rparr>
          = req\<lparr>ContentLength := int (length bodyBytes)\<rparr>"
    using assms by simp
  moreover have "rewriteTree basePath ([] :: (string \<times> 'a json) list) = ([], False, [])"
    by (simp add: rewriteTree_def)
  ultimately show ?thesis
    using assms by (simp add: modifyAndExtract_def)
qed

text \<open>Scenario 5, the body \<^verbatim>\<open>not json\<close>, and the body \<^verbatim>\<open>null\<close>.\<close>

theorem modifyAndExtract_not_json_witness:
  "modifyAndExtract (\<lambda>b. None :: (string \<times> unit json) list option) (\<lambda>t. [])
      \<lparr>Body = Reader (Some ''not json''), ContentLength = 8\<rparr> ''/vol/'' ''192.168.137.25'' =
     \<lparr>out_req = \<lparr>Body = Reader (Some ''not json''), ContentLength = 8\<rparr>,
      spawned = [], was_modified = False\<rparr>
   \<and> modifyAndExtract (\<lambda>b. Some ([] :: (string \<times> unit json) list)) (\<lambda>t. [])
      \<lparr>Body = Reader (Some ''null''), ContentLength = 0\<rparr> ''/vol/'' ''192.168.137.25'' =
     \<lparr>out_req = \<lparr>Body = Reader (Some ''null''), ContentLength = 4\<rparr>,
      spawned = [], was_modified = False\<rparr>"
  using modifyAndExtract_not_json[of "\<lparr>Body = Reader (Some ''not json''), ContentLength = 8\<rparr>"
      "''not json''" "\<lambda>b. None :: (string \<times> unit json) list option" "\<lambda>t. []" "''/vol/''"
      "''192.168.137.25''"]
    modifyAndExtract_not_json[of "\<lparr>Body = Reader (Some ''null''), ContentLength = 0\<rparr>"
      "''null''" "\<lambda>b. Some ([] :: (string \<times> unit json) list)" "\<lambda>t. []" "''/vol/''"
      "''192.168.137.25''"]
  by simp

subsection \<open>Bind entries\<close>

text \<open>
  C5. The claim: a bind entry made of drive \<open>d\<close>, sub-path \<open>p\<close> and trailing suffix \<open>t\<close>
  (the text following the sub-path) becomes \<open>translate(base, d, p)\<close> followed by \<open>t\<close>,
  kept verbatim. The code keeps \<open>t\<close> only up to its first line feed, because \<^verbatim>\<open>(.*)\<close>
  stops there: for the base \<^verbatim>\<open>/vol/\<close> the entry \<^verbatim>\<open>C:\data:/app\<close>, line feed, \<^verbatim>\<open>X\<close>
  becomes \<^verbatim>\<open>/vol/C/data:/app\<close>, and the line feed and \<^verbatim>\<open>X\<close> are lost. (For a suffix
  without a line feed the claim holds: lemma \<open>rewriteBind_decompose\<close>.)
\<close>

theorem rewriteBind_drops_after_linefeed:
  "rewriteBind ''/vol/''
     (JString (''C:'' @ [backslash] @ ''data:/app'' @ [linefeed] @ ''X'') :: unit json)
     = Some (JString ''/vol/C/data:/app'')"
  by code_simp

subsection \<open>Environment entries\<close>

text \<open>
  C6. The claim: an environment entry \<open>KEY=VALUE\<close> whose value is a drive letter, a
  colon, a separator and a remainder becomes \<open>KEY=translate(base, drive, remainder)\<close>.
  The code translates the remainder only up to its first line feed, because \<^verbatim>\<open>(.*)\<close>
  stops there: for the base \<^verbatim>\<open>/vol/\<close> the entry \<^verbatim>\<open>KEY=C:\a\<close>, line feed, \<^verbatim>\<open>b\<close> becomes
  \<^verbatim>\<open>KEY=/vol/C/a\<close>, and the line feed and \<^verbatim>\<open>b\<close> are lost. (For a value without a line
  feed the claim holds, and entries without \<open>=\<close> or with a value that does not match are
  left alone: lemmas \<open>rewriteEnv_decompose\<close> and \<open>rewriteEnv_untouched\<close>.)
\<close>

theorem rewriteEnv_drops_after_linefeed:
  "rewriteEnv ''/vol/''
     (JString (''KEY=C:'' @ [backslash] @ ''a'' @ [linefeed] @ ''b'') :: unit json)
     = Some (JString ''KEY=/vol/C/a'')"
  by code_simp

text \<open>
  C10. The claim: an environment entry is split at its first \<open>=\<close> only, the value is
  the entire remainder with any later \<open>=\<close>, and a value that matches is translated as
  one value. The split is as claimed, but the translation is not: for the base \<^verbatim>\<open>/vol/\<close>
  the entry \<^verbatim>\<open>K=C:/a\<close>, line feed, \<^verbatim>\<open>b=c\<close> is split into \<^verbatim>\<open>K\<close> and the whole
  remainder, the remainder matches, and the entry becomes \<^verbatim>\<open>K=/vol/C/a\<close>: the line feed
  and the rest of the value, with its later \<open>=\<close>, are lost, because \<^verbatim>\<open>(.*)\<close> stops at
  the line feed. (For a value without a line feed the later \<open>=\<close> characters are kept:
  lemmas \<open>rewriteEnv_decompose\<close> and \<open>rewriteEnv_later_equals_kept\<close>.)
\<close>

theorem rewriteEnv_later_equals_lost_after_linefeed:
  "SplitN2 (''K=C:/a'' @ [linefeed] @ ''b=c'') (CHR ''='') = [''K'', ''C:/a'' @ [linefeed] @ ''b=c'']
   \<and> rewriteEnv ''/vol/'' (JString (''K=C:/a'' @ [linefeed] @ ''b=c'') :: unit json)
       = Some (JString ''K=/vol/C/a'')"
  by code_simp

subsection \<open>Port discovery without rewriting\<close>

text \<open>
  C9. For a body that parses to a tree with a host configuration and a port-bindings
  mapping, in which no element of the binds list and no element of the environment list
  matches, the request leaves with the bytes that were read (and their length as content
  length), the modification flag is false, and one forwarder is started for every
  descriptor that carries a host port, duplicates included.
\<close>

theorem port_discovery_leaves_body:
  assumes body: "Body req = Reader (Some bodyBytes)"
    and parse: "unmarshal bodyBytes = Some containerMap"
    and hc: "map_of containerMap ''HostConfig'' = Some (JObject hostConfig)"
    and pb: "map_of hostConfig ''PortBindings'' = Some (JObject portBindings)"
    and binds: "\<forall>binds. map_of hostConfig ''Binds'' = Some (JArray binds) \<longrightarrow>
                  (\<forall>b\<in>set binds. \<not> bind_matches b)"
    and envs: "\<forall>envs. map_of containerMap ''Env'' = Some (JArray envs) \<longrightarrow>
                  (\<forall>e\<in>set envs. \<not> env_matches e)"
  shows "modifyAndExtract unmarshal marshal req basePath targetIP =
           \<lparr>out_req = req\<lparr>ContentLength := int (length bodyBytes)\<rparr>,
            spawned = map (\<lambda>hostPort. (hostPort, targetIP)) (declared_ports portBindings),
            was_modified = False\<rparr>"
proof -
  have b1: "(case map_of hostConfig ''Binds'' of
               Some (JArray binds) \<Rightarrow>
                 (let (binds', m) = rewriteBinds basePath binds False
                  in (AList.update ''Binds'' (JArray binds') hostConfig, m))
             | _ \<Rightarrow> (hostConfig, False)) = (hostConfig, False)"
    using binds by (auto simp: rewriteBinds_no_match update_triv split: option.splits json.splits)
  have h: "rewriteHostConfig basePath hostConfig = (hostConfig, False, declared_ports portBindings)"
    by (simp add: rewriteHostConfig_def b1 pb discoverPorts_declared)
  have u: "AList.update ''HostConfig'' (JObject hostConfig) containerMap = containerMap"
    using hc by (rule update_triv)
  have e1: "(case map_of containerMap ''Env'' of
               Some (JArray envs) \<Rightarrow>
                 (let (envs', m) = rewriteEnvs basePath envs False
                  in (AList.update ''Env'' (JArray envs') containerMap, m))
             | _ \<Rightarrow> (containerMap, False)) = (containerMap, False)"
    using envs by (auto simp: rewriteEnvs_no_match update_triv split: option.splits json.splits)
  have t: "rewriteTree basePath containerMap = (containerMap, False, declared_ports portBindings)"
    by (simp add: rewriteTree_def hc h u e1)
  have "req\<lparr>Body := Reader (Some bodyBytes), ContentLength := int (length bodyBytes)\<rparr>
          = req\<lparr>ContentLength := int (length bodyBytes)\<rparr>"
    using body by simp
  then show ?thesis
    by (simp add: modifyAndExtract_def body parse t)
qed

text \<open>The theorem at the sample payload: three forwarders, the port 54322 twice.\<close>

theorem port_discovery_leaves_body_witness:
  "modifyAndExtract (\<lambda>b. Some sample_tree) (\<lambda>t. []) sample_request ''/vol/'' ''192.168.137.25'' =
     \<lparr>out_req = sample_request\<lparr>ContentLength := 15\<rparr>,
      spawned = [(''54322'', ''192.168.137.25''), (''8080'', ''192.168.137.25''),
                 (''54322'', ''192.168.137.25'')],
      was_modified = False\<rparr>"
proof -
  have body: "Body sample_request = Reader (Some ''(payload bytes)'')"
    by (simp add: sample_request_def)
  have parse: "(\<lambda>b. Some sample_tree) ''(payload bytes)'' = Some sample_tree"
    by simp
  have hc: "map_of sample_tree ''HostConfig'' = Some (JObject sample_hostConfig)"
    by (simp add: sample_tree_def)
  have pb: "map_of sample_hostConfig ''PortBindings'' = Some (JObject sample_portBindings)"
    by (simp add: sample_hostConfig_def)
  have nb: "\<not> bind_matches (JString ''/srv/data:/app'' :: unit json)" by code_simp
  have ne: "\<not> env_matches (JString ''NAME=value'' :: unit json)" by code_simp
  have binds: "\<forall>binds. map_of sample_hostConfig ''Binds'' = Some (JArray binds) \<longrightarrow>
                  (\<forall>b\<in>set binds. \<not> bind_matches b)"
    using nb by (simp add: sample_hostConfig_def)
  have envs: "\<forall>envs. map_of sample_tree ''Env'' = Some (JArray envs) \<longrightarrow>
                  (\<forall>e\<in>set envs. \<not> env_matches e)"
    using ne by (simp add: sample_tree_def)
  have ports: "declared_ports sample_portBindings = [''54322'', ''8080'', ''54322'']"
    by code_simp
  show ?thesis
    using port_discovery_leaves_body[OF body parse hc pb binds envs, of "\<lambda>t. []" "''/vol/''"
        "''192.168.137.25''"]
    by (simp add: ports)
qed

section \<open>The forward registry\<close>

subsection \<open>Counting goroutines\<close>

lemma length_filter_update:
  "i < length xs \<Longrightarrow>
   length (filter P (xs[i := v])) + (if P (xs ! i) then 1 else 0) =
   length (filter P xs) + (if P v then 1 else 0)"
proof (induction xs arbitrary: i)
  case Nil
  then show ?case by simp
next
  case (Cons x xs)
  then show ?case by (cases i) auto
qed

lemma singleton_filter:
  assumes "length (filter P xs) \<le> 1" "i < length xs" "P (xs ! i)"
  shows "filter P xs = [xs ! i]"
proof -
  have "xs ! i \<in> set (filter P xs)" using assms by simp
  with assms(1) show ?thesis
    by (cases "filter P xs") auto
qed

lemma listeners_among_winners:
  "listeners s port = filter (\<lambda>g. snd g = Accepting) (winners s port)"
  by (auto simp: listeners_def winners_def won_def intro: filter_cong)

subsection \<open>The invariant: one winner per registered port, none otherwise\<close>

lemma registry_inv_init: "registry_inv init"
  by (simp add: registry_inv_def init_def winners_def active_def)

lemma winners_Go: "winners (step s (Go p)) port = winners s port"
  by (simp add: winners_def won_def)

lemma registry_inv_Lock:
  assumes "registry_inv s"
  shows "registry_inv (step s (Lock i))"
proof (cases "i < length (goroutines s) \<and> snd (goroutines s ! i) = AtLock")
  case False
  then show ?thesis using assms by auto
next
  case True
  define p where "p = fst (goroutines s ! i)"
  have gi: "goroutines s ! i = (p, AtLock)" using True by (simp add: p_def prod_eq_iff)
  show ?thesis
  proof (cases "active (activeForwards s) p")
    case act: True
    have st: "step s (Lock i) = s\<lparr>goroutines := (goroutines s)[i := (p, ReturnedNoop)]\<rparr>"
      using True act by (simp add: testAndSet_def p_def Let_def)
    have "\<And>port. length (winners (step s (Lock i)) port) = length (winners s port)"
      using length_filter_update[of i "goroutines s" "\<lambda>g. fst g = port \<and> won (snd g)"
          "(p, ReturnedNoop)" for port] True gi
      by (simp add: st winners_def won_def del: step.simps)
    then show ?thesis using assms by (simp add: registry_inv_def st del: step.simps)
  next
    case nact: False
    have st: "step s (Lock i) = s\<lparr>activeForwards := (activeForwards s)(p \<mapsto> True),
                 goroutines := (goroutines s)[i := (p, AtListen)]\<rparr>"
      using True nact by (simp add: testAndSet_def p_def Let_def)
    have "\<And>port. length (winners (step s (Lock i)) port) =
               length (winners s port) + (if port = p then 1 else 0)"
      using length_filter_update[of i "goroutines s" "\<lambda>g. fst g = port \<and> won (snd g)"
          "(p, AtListen)" for port] True gi
      by (auto simp add: st winners_def won_def simp del: step.simps)
    then show ?thesis
      using assms nact by (auto simp add: registry_inv_def st active_def simp del: step.simps)
  qed
qed

lemma winners_Listen:
  "length (winners (step s (Listen i ok)) port) = length (winners s port)"
proof (cases "i < length (goroutines s) \<and> snd (goroutines s ! i) = AtListen")
  case False
  then show ?thesis by auto
next
  case True
  then show ?thesis
    using length_filter_update[of i "goroutines s" "\<lambda>g. fst g = port \<and> won (snd g)"
        "(fst (goroutines s ! i), if ok then Accepting else ReturnedFailed)"]
    by (auto simp add: winners_def won_def)
qed

lemma activeForwards_Listen: "activeForwards (step s (Listen i ok)) = activeForwards s"
  by simp

lemma registry_inv_step: "registry_inv s \<Longrightarrow> registry_inv (step s e)"
proof (cases e)
  case (Go p)
  assume "registry_inv s"
  then show ?thesis unfolding Go registry_inv_def winners_Go by simp
next
  case (Lock i)
  assume "registry_inv s"
  then show ?thesis unfolding Lock by (rule registry_inv_Lock)
next
  case (Listen i ok)
  assume "registry_inv s"
  then show ?thesis unfolding Listen registry_inv_def winners_Listen activeForwards_Listen .
qed

lemma registry_inv_run: "registry_inv s \<Longrightarrow> registry_inv (run s sched)"
  unfolding run_def by (induction sched arbitrary: s) (simp_all add: registry_inv_step)

subsection \<open>The registry only grows\<close>

lemma active_step: "active (activeForwards s) port \<Longrightarrow> active (activeForwards (step s e)) port"
  by (cases e) (auto simp: testAndSet_def active_def Let_def split: if_splits)

lemma active_run:
  "active (activeForwards s) port \<Longrightarrow> active (activeForwards (run s sched)) port"
  unfolding run_def by (induction sched arbitrary: s) (simp_all add: active_step)

lemma Lock_result:
  assumes "i < length (goroutines s)" "goroutines s ! i = (port, AtLock)"
  shows "goroutines (step s (Lock i)) ! i =
           (port, if active (activeForwards s) port then ReturnedNoop else AtListen)
         \<and> active (activeForwards (step s (Lock i))) port
         \<and> (active (activeForwards s) port \<longrightarrow>
              activeForwards (step s (Lock i)) = activeForwards s)"
  using assms by (simp add: testAndSet_def Let_def active_def)

subsection \<open>A goroutine that returned after a failed bind stays returned\<close>

lemma failed_step:
  assumes "i < length (goroutines s)" "goroutines s ! i = (port, ReturnedFailed)"
  shows "i < length (goroutines (step s e))
       \<and> goroutines (step s e) ! i = (port, ReturnedFailed)"
proof (cases e)
  case (Go p)
  with assms show ?thesis by (simp add: nth_append)
next
  case (Lock j)
  with assms show ?thesis
    by (cases "j = i") (auto simp: Let_def split: prod.splits)
next
  case (Listen j ok)
  with assms show ?thesis
    by (cases "j = i") auto
qed

lemma failed_run:
  assumes "i < length (goroutines s)" "goroutines s ! i = (port, ReturnedFailed)"
  shows "i < length (goroutines (run s sched))
       \<and> goroutines (run s sched) ! i = (port, ReturnedFailed)"
  using assms unfolding run_def
proof (induction sched arbitrary: s)
  case Nil
  then show ?case by simp
next
  case (Cons e sched)
  from failed_step[OF Cons.prems, of e] Cons.IH[of "step s e"] show ?case by simp
qed

subsection \<open>At most one listener per port\<close>

text \<open>
  C1. After any interleaving \<open>sched\<close> of invocations, critical sections and bind attempts,
  for every port: exactly one goroutine has won the test-and-set if the port is in the
  registry and none otherwise, so at most one proceeds to listen and at most one listener
  exists; a port in the registry is still there after any further steps \<open>later\<close>; and a
  goroutine for the port that enters its critical section goes on to listen when the port
  is not yet registered (registering it) and returns as a no-op, leaving the registry as
  it is, when the port is registered.
\<close>

theorem startForwarder_single_listener:
  "length (winners (run init sched) port) =
     (if active (activeForwards (run init sched)) port then 1 else 0)
   \<and> length (listeners (run init sched) port) \<le> 1
   \<and> (active (activeForwards (run init sched)) port \<longrightarrow>
        active (activeForwards (run (run init sched) later)) port)
   \<and> (i < length (goroutines (run init sched))
          \<and> goroutines (run init sched) ! i = (port, AtLock) \<longrightarrow>
        goroutines (step (run init sched) (Lock i)) ! i =
          (port, if active (activeForwards (run init sched)) port
                 then ReturnedNoop else AtListen)
        \<and> active (activeForwards (step (run init sched) (Lock i))) port
        \<and> (active (activeForwards (run init sched)) port \<longrightarrow>
             activeForwards (step (run init sched) (Lock i)) = activeForwards (run init sched)))"
proof -
  define s where "s = run init sched"
  have inv: "registry_inv s"
    unfolding s_def by (rule registry_inv_run[OF registry_inv_init])
  then have w: "length (winners s port) = (if active (activeForwards s) port then 1 else 0)"
    by (simp add: registry_inv_def)
  have "length (listeners s port) \<le> length (winners s port)"
    by (simp add: listeners_among_winners)
  with w have l: "length (listeners s port) \<le> 1"
    by (simp split: if_splits)
  show ?thesis
    unfolding s_def[symmetric] using w l active_run Lock_result by blast
qed

text \<open>
  The theorem after three invocations for port 5432, of which the second has entered its
  critical section and bound its listener: the port is registered, stays registered when
  the first goroutine enters, and the third returns as a no-op.
\<close>

theorem startForwarder_single_listener_witness:
  "length (winners (run init [Go ''5432'', Go ''5432'', Go ''5432'', Lock 1, Listen 1 True])
             ''5432'') = 1
   \<and> active (activeForwards
               (run init [Go ''5432'', Go ''5432'', Go ''5432'', Lock 1, Listen 1 True])) ''5432''
   \<and> active (activeForwards
               (run (run init [Go ''5432'', Go ''5432'', Go ''5432'', Lock 1, Listen 1 True])
                    [Lock 0])) ''5432''
   \<and> goroutines (run init [Go ''5432'', Go ''5432'', Go ''5432'', Lock 1, Listen 1 True]) ! 2
       = (''5432'', AtLock)
   \<and> goroutines (step (run init [Go ''5432'', Go ''5432'', Go ''5432'', Lock 1, Listen 1 True])
                       (Lock 2)) ! 2
       = (''5432'', ReturnedNoop)"
proof -
  have a: "active (activeForwards
             (run init [Go ''5432'', Go ''5432'', Go ''5432'', Lock 1, Listen 1 True])) ''5432''"
    by code_simp
  have g: "(2::nat) < length (goroutines
             (run init [Go ''5432'', Go ''5432'', Go ''5432'', Lock 1, Listen 1 True]))
      \<and> goroutines (run init [Go ''5432'', Go ''5432'', Go ''5432'', Lock 1, Listen 1 True]) ! 2
          = (''5432'', AtLock)"
    by code_simp
  show ?thesis
    using a g startForwarder_single_listener[of
        "[Go ''5432'', Go ''5432'', Go ''5432'', Lock 1, Listen 1 True]" "''5432''" "[Lock 0]" 2]
    by simp
qed

subsection \<open>A failed bind is never retried\<close>

text \<open>
  C7. Once goroutine \<open>i\<close> has returned from a failed \<^verbatim>\<open>net.Listen\<close> for a port, then
  after any further steps \<open>later\<close>: the port is still in the registry; goroutine \<open>i\<close> is
  still returned; it is the only goroutine for the port that ever got past the
  test-and-set, so no other goroutine attempts or holds a bind and no listener for the
  port exists; and every goroutine \<open>j\<close> for the port that enters its critical section
  returns as a no-op and changes nothing else.
\<close>

theorem failed_bind_never_retried:
  assumes "i < length (goroutines (run init sched))"
    and "goroutines (run init sched) ! i = (port, ReturnedFailed)"
  shows "active (activeForwards (run (run init sched) later)) port
       \<and> goroutines (run (run init sched) later) ! i = (port, ReturnedFailed)
       \<and> winners (run (run init sched) later) port = [(port, ReturnedFailed)]
       \<and> listeners (run (run init sched) later) port = []
       \<and> (j < length (goroutines (run (run init sched) later))
            \<and> goroutines (run (run init sched) later) ! j = (port, AtLock) \<longrightarrow>
          step (run (run init sched) later) (Lock j) =
            (run (run init sched) later)\<lparr>goroutines :=
               (goroutines (run (run init sched) later))[j := (port, ReturnedNoop)]\<rparr>)"
proof -
  define s' where "s' = run (run init sched) later"
  have inv: "registry_inv s'"
    unfolding s'_def by (intro registry_inv_run registry_inv_init)
  have f: "i < length (goroutines s')" "goroutines s' ! i = (port, ReturnedFailed)"
    using failed_run[OF assms, of later] by (simp_all add: s'_def)
  have le: "length (winners s' port) \<le> 1"
    using inv by (simp add: registry_inv_def)
  have w: "winners s' port = [(port, ReturnedFailed)]"
    using singleton_filter[of "\<lambda>g. fst g = port \<and> won (snd g)" "goroutines s'" i] le f
    by (simp add: winners_def won_def)
  have a: "active (activeForwards s') port"
    using inv w by (auto simp: registry_inv_def split: if_splits)
  have l: "listeners s' port = []"
    by (simp add: listeners_among_winners w)
  have n: "j < length (goroutines s') \<and> goroutines s' ! j = (port, AtLock) \<longrightarrow>
          step s' (Lock j) = s'\<lparr>goroutines := (goroutines s')[j := (port, ReturnedNoop)]\<rparr>"
    using a by (simp add: testAndSet_def Let_def)
  show ?thesis
    unfolding s'_def[symmetric] using a f w l n by blast
qed

text \<open>
  The theorem after one invocation for port 5432 whose bind was refused, followed by a
  second invocation: the second goroutine finds the port registered and returns.
\<close>

theorem failed_bind_never_retried_witness:
  "(0::nat) < length (goroutines (run init [Go ''5432'', Lock 0, Listen 0 False]))
   \<and> goroutines (run init [Go ''5432'', Lock 0, Listen 0 False]) ! 0 = (''5432'', ReturnedFailed)
   \<and> active (activeForwards
               (run (run init [Go ''5432'', Lock 0, Listen 0 False]) [Go ''5432''])) ''5432''
   \<and> goroutines (run (run init [Go ''5432'', Lock 0, Listen 0 False]) [Go ''5432'']) ! 1
       = (''5432'', AtLock)
   \<and> goroutines (run (run init [Go ''5432'', Lock 0, Listen 0 False])
                      [Go ''5432'', Lock 1, Listen 1 True])
       = [(''5432'', ReturnedFailed), (''5432'', ReturnedNoop)]
   \<and> listeners (run (run init [Go ''5432'', Lock 0, Listen 0 False])
                     [Go ''5432'', Lock 1, Listen 1 True]) ''5432'' = []"
proof -
  have h1: "(0::nat) < length (goroutines (run init [Go ''5432'', Lock 0, Listen 0 False]))"
    by code_simp
  have h2: "goroutines (run init [Go ''5432'', Lock 0, Listen 0 False]) ! 0
              = (''5432'', ReturnedFailed)"
    by code_simp
  have g: "goroutines (run (run init [Go ''5432'', Lock 0, Listen 0 False]) [Go ''5432'']) ! 1
             = (''5432'', AtLock)"
    by code_simp
  have r: "goroutines (run (run init [Go ''5432'', Lock 0, Listen 0 False])
                      [Go ''5432'', Lock 1, Listen 1 True])
       = [(''5432'', ReturnedFailed), (''5432'', ReturnedNoop)]"
    by code_simp
  show ?thesis
    using h1 h2 g r
      failed_bind_never_retried[OF h1 h2, of "[Go ''5432'']" 1]
      failed_bind_never_retried[OF h1 h2, of "[Go ''5432'', Lock 1, Listen 1 True]" 1]
    by simp
qed

end
